theory Spec2Isabelle
  imports Complex_Main
begin

section \<open>Python values and exceptions\<close>

text \<open>
  The program is \<^verbatim>\<open>qualifier.py\<close>: \<^verbatim>\<open>valid_input\<close>, \<^verbatim>\<open>rearrange_tiles\<close>,
  \<^verbatim>\<open>split_image_with_tile\<close> and \<^verbatim>\<open>join_parts\<close>. Python's unbounded integers are
  \<open>int\<close>. The quotients \<^verbatim>\<open>image_size[0] / tile_size[0]\<close> are Python floats; they are
  modelled as exact rationals (\<open>rat\<close>). Every quotient the program goes on to use is an
  integer (the tile size divides the image size), and on integers of magnitude below
  \<open>2 ^ 53\<close>, far beyond the pixel count of any image the imaging library can hold, IEEE
  double arithmetic is exact. A theorem about sizes that are passed in directly, rather
  than read from an image, states this range as \<open>double_exact\<close>. Every exception of
  the source is a value of
  \<open>py_error\<close>, and a function that may raise returns \<open>py_error + 'a\<close>.
\<close>

datatype py_error =
    ZeroDivisionError
  | IndexError
  | ValueError string
  | FileNotFoundError

definition bindE :: "py_error + 'a \<Rightarrow> ('a \<Rightarrow> py_error + 'b) \<Rightarrow> py_error + 'b" where
  "bindE m f = (case m of Inl e \<Rightarrow> Inl e | Inr v \<Rightarrow> f v)"

text \<open>\<^verbatim>\<open>a % b\<close> on integers: the sign follows the divisor, a zero divisor raises.\<close>

definition py_mod :: "int \<Rightarrow> int \<Rightarrow> py_error + int" where
  "py_mod a b = (if b = 0 then Inl ZeroDivisionError else Inr (a mod b))"

text \<open>\<^verbatim>\<open>a / b\<close> on integers: true division, giving a float.\<close>

definition py_truediv :: "int \<Rightarrow> int \<Rightarrow> py_error + rat" where
  "py_truediv a b = (if b = 0 then Inl ZeroDivisionError else Inr (of_int a / of_int b))"

text \<open>\<^verbatim>\<open>x % y\<close> and \<^verbatim>\<open>x // y\<close> where an operand is a float.\<close>

definition py_fmod :: "rat \<Rightarrow> rat \<Rightarrow> py_error + rat" where
  "py_fmod x y = (if y = 0 then Inl ZeroDivisionError else Inr (x - y * of_int \<lfloor>x / y\<rfloor>))"

definition py_ffloordiv :: "rat \<Rightarrow> rat \<Rightarrow> py_error + rat" where
  "py_ffloordiv x y = (if y = 0 then Inl ZeroDivisionError else Inr (of_int \<lfloor>x / y\<rfloor>))"

text \<open>\<^verbatim>\<open>int(x)\<close> on a float truncates towards zero.\<close>

definition py_int :: "rat \<Rightarrow> int" where
  "py_int x = (if 0 \<le> x then \<lfloor>x\<rfloor> else \<lceil>x\<rceil>)"

text \<open>
  The integers on which the rational model and the doubles of the program agree: an
  integer of magnitude below \<open>2 ^ 53\<close> is a double, the correctly rounded true division of
  two integers returns it when it is the exact quotient, and a product or remainder of
  doubles that is such an integer is computed without rounding.
\<close>

definition double_exact :: "int \<Rightarrow> bool" where
  "double_exact n = (\<bar>n\<bar> < 2 ^ 53)"

text \<open>\<^verbatim>\<open>xs[i]\<close>: a negative index counts from the end, anything else out of range raises.\<close>

definition py_getitem :: "'a list \<Rightarrow> int \<Rightarrow> py_error + 'a" where
  "py_getitem xs i =
     (if 0 \<le> i \<and> i < int (length xs) then Inr (xs ! nat i)
      else if i < 0 \<and> - int (length xs) \<le> i then Inr (xs ! nat (int (length xs) + i))
      else Inl IndexError)"

text \<open>\<^verbatim>\<open>range(start, stop, step)\<close> as the list of the values it yields.\<close>

definition py_range :: "int \<Rightarrow> int \<Rightarrow> int \<Rightarrow> py_error + int list" where
  "py_range start stop step =
     (if step = 0 then Inl (ValueError ''range() arg 3 must not be zero'')
      else if 0 < step
        then Inr (map (\<lambda>k. start + int k * step) [0..<nat ((stop - start + step - 1) div step)])
        else Inr (map (\<lambda>k. start + int k * step) [0..<nat ((start - stop - step - 1) div (- step))]))"

section \<open>The pixel buffer of the imaging library\<close>

text \<open>
  Modelled from the spec: the imaging library (PIL) is not part of the repository. The spec
  describes its image object as a pixel buffer with the capabilities read dimensions, read
  colour mode, crop a sub-rectangle, paste a sub-rectangle at an offset, construct a blank
  buffer of a given size and mode, open from and persist to a path. An image is its size
  \<open>(width, height)\<close>, its mode and its pixel values by coordinate; a blank pixel is \<open>0\<close>.
\<close>

type_synonym pixel = nat

record image =
  im_size :: "int \<times> int"
  im_mode :: string
  im_pix :: "int \<Rightarrow> int \<Rightarrow> pixel"

definition in_bounds :: "image \<Rightarrow> int \<Rightarrow> int \<Rightarrow> bool" where
  "in_bounds img x y = (0 \<le> x \<and> x < fst (im_size img) \<and> 0 \<le> y \<and> y < snd (im_size img))"

text \<open>Modelled from the spec: \<^verbatim>\<open>Image.new(mode, size)\<close>, a blank buffer; a negative size raises.\<close>

definition Image_new :: "string \<Rightarrow> int \<times> int \<Rightarrow> py_error + image" where
  "Image_new md sz =
     (if fst sz < 0 \<or> snd sz < 0 then Inl (ValueError ''Width and height must be >= 0'')
      else Inr \<lparr>im_size = sz, im_mode = md, im_pix = (\<lambda>x y. 0)\<rparr>)"

text \<open>
  Modelled from the spec: \<^verbatim>\<open>image.crop((left, upper, right, lower))\<close>, a new buffer of size
  \<open>(right - left, lower - upper)\<close> holding the rectangle's pixels; what lies outside the
  source is blank.
\<close>

definition crop :: "image \<Rightarrow> int \<times> int \<times> int \<times> int \<Rightarrow> image" where
  "crop img box =
     (case box of (left, upper, right, lower) \<Rightarrow>
        \<lparr>im_size = (right - left, lower - upper),
         im_mode = im_mode img,
         im_pix = (\<lambda>x y. if in_bounds img (left + x) (upper + y)
                          then im_pix img (left + x) (upper + y) else 0)\<rparr>)"

text \<open>
  Modelled from the spec: \<^verbatim>\<open>image.paste(part, (left, upper))\<close> overwrites, in place, the
  rectangle of the part's size at the offset, clipped to the destination. The mutated
  buffer is returned.
\<close>

definition paste :: "image \<Rightarrow> image \<Rightarrow> int \<times> int \<Rightarrow> image" where
  "paste dst part pos =
     (case pos of (left, upper) \<Rightarrow>
        dst\<lparr>im_pix := (\<lambda>x y.
               if in_bounds dst x y \<and> in_bounds part (x - left) (y - upper)
               then im_pix part (x - left) (y - upper) else im_pix dst x y)\<rparr>)"

text \<open>
  Modelled from the spec: the file system as a map from paths to the images stored there.
  \<^verbatim>\<open>Image.open\<close> raises on a missing path; \<^verbatim>\<open>save\<close> creates or overwrites the path. Encoding
  and decoding of file formats are outside the model.
\<close>

type_synonym filesystem = "string \<rightharpoonup> image"

definition Image_open :: "filesystem \<Rightarrow> string \<Rightarrow> py_error + image" where
  "Image_open fs path = (case fs path of None \<Rightarrow> Inl FileNotFoundError | Some img \<Rightarrow> Inr img)"

definition save :: "filesystem \<Rightarrow> image \<Rightarrow> string \<Rightarrow> filesystem" where
  "save fs img path = fs(path \<mapsto> img)"

section \<open>The validator\<close>

text \<open>
  \<^verbatim>\<open>valid_input(image_size, tile_size, ordering)\<close>. The duplicate test comes first and
  returns before any division; the two remainders are joined by a short-circuit
  \<^verbatim>\<open>and\<close>; the quotients are floats; the last test is a float remainder by
  \<^verbatim>\<open>len(ordering)\<close>.
\<close>

definition valid_input :: "int \<times> int \<Rightarrow> int \<times> int \<Rightarrow> int list \<Rightarrow> py_error + bool" where
  "valid_input image_size tile_size ordering' =
     (if card (set ordering') \<noteq> length ordering' then Inr False
      else
        bindE (py_mod (fst image_size) (fst tile_size)) (\<lambda>m0.
        bindE (if m0 = 0
               then bindE (py_mod (snd image_size) (snd tile_size)) (\<lambda>m1. Inr (m1 = 0))
               else Inr False) (\<lambda>divides.
        if divides then
          bindE (py_truediv (fst image_size) (fst tile_size)) (\<lambda>cols.
          bindE (py_truediv (snd image_size) (snd tile_size)) (\<lambda>rows.
          bindE (py_fmod (cols * rows) (of_int (int (length ordering')))) (\<lambda>r.
          if r = 0 then Inr True else Inr False)))
        else Inr False)))"

section \<open>The splitter\<close>

text \<open>
  \<^verbatim>\<open>split_image_with_tile(image, tile_size)\<close>: the outer loop runs over
  \<^verbatim>\<open>range(0, height, tile_height)\<close>, the inner one over \<^verbatim>\<open>range(0, width, tile_width)\<close>,
  which is evaluated once per row (so a zero tile width raises only when there is a row).
  Each step appends the crop \<open>(x, y, x + tile_width, y + tile_height)\<close>.
\<close>

fun split_cols :: "image \<Rightarrow> int \<Rightarrow> int \<Rightarrow> int \<Rightarrow> int list \<Rightarrow> image list" where
  "split_cols image' tile_width tile_height y [] = []"
| "split_cols image' tile_width tile_height y (x # xs) =
     crop image' (x, y, x + tile_width, y + tile_height)
       # split_cols image' tile_width tile_height y xs"

fun split_rows :: "image \<Rightarrow> int \<Rightarrow> int \<Rightarrow> int \<Rightarrow> int list \<Rightarrow> py_error + image list" where
  "split_rows image' tile_width tile_height width [] = Inr []"
| "split_rows image' tile_width tile_height width (y # ys) =
     bindE (py_range 0 width tile_width) (\<lambda>xs.
     bindE (split_rows image' tile_width tile_height width ys) (\<lambda>rest.
     Inr (split_cols image' tile_width tile_height y xs @ rest)))"

definition split_image_with_tile :: "image \<Rightarrow> int \<times> int \<Rightarrow> py_error + image list" where
  "split_image_with_tile image' tile_size =
     (case im_size image' of (width, height) \<Rightarrow>
      case tile_size of (tile_width, tile_height) \<Rightarrow>
        bindE (py_range 0 height tile_height) (\<lambda>ys.
        split_rows image' tile_width tile_height width ys))"

section \<open>The joiner\<close>

text \<open>
  \<^verbatim>\<open>join_parts(parts, order, rows, cols, image_mode)\<close>. The tile size is read from
  \<^verbatim>\<open>parts[0]\<close> before the canvas is allocated. The loop over \<^verbatim>\<open>enumerate(order)\<close> carries
  the index and the canvas; each step looks the tile up first, then computes the cell
  from \<^verbatim>\<open>idx % cols\<close> and \<^verbatim>\<open>idx // cols\<close>, then pastes.
\<close>

fun join_loop ::
  "image list \<Rightarrow> rat \<Rightarrow> int \<Rightarrow> int \<Rightarrow> int \<Rightarrow> int list \<Rightarrow> image \<Rightarrow> py_error + image" where
  "join_loop parts cols part_width part_height idx [] joined_image = Inr joined_image"
| "join_loop parts cols part_width part_height idx (part_idx # rest) joined_image =
     bindE (py_getitem parts part_idx) (\<lambda>part.
     bindE (py_fmod (of_int idx) cols) (\<lambda>m.
     bindE (py_ffloordiv (of_int idx) cols) (\<lambda>q.
       let col_idx = py_int m;
           row_idx = py_int q;
           left = col_idx * part_width;
           upper = row_idx * part_height
       in join_loop parts cols part_width part_height (idx + 1) rest
            (paste joined_image part (left, upper)))))"

definition join_parts ::
  "image list \<Rightarrow> int list \<Rightarrow> rat \<Rightarrow> rat \<Rightarrow> string \<Rightarrow> py_error + image" where
  "join_parts parts order rows cols image_mode =
     bindE (py_getitem parts 0) (\<lambda>part0.
       case im_size part0 of (part_width, part_height) \<Rightarrow>
         let width = py_int (cols * of_int part_width);
             height = py_int (rows * of_int part_height)
         in bindE (Image_new image_mode (width, height)) (\<lambda>joined_image.
            join_loop parts cols part_width part_height 0 order joined_image))"

section \<open>The orchestrator\<close>

text \<open>
  \<^verbatim>\<open>rearrange_tiles(image_path, tile_size, ordering, out_path)\<close>. The quotients
  \<^verbatim>\<open>cols\<close> and \<^verbatim>\<open>rows\<close> are computed before the validator is called. An exception leaves
  the file system as it was; only the final \<^verbatim>\<open>save\<close> writes.
\<close>

definition invalid_message :: string where
  "invalid_message = ''The tile size or ordering are not valid for the given image''"

text \<open>
  The body of \<^verbatim>\<open>rearrange_tiles\<close> between \<^verbatim>\<open>Image.open\<close> and \<^verbatim>\<open>save\<close> (lines 48 to 62),
  which touches no file.
\<close>

definition rearrange_image :: "image \<Rightarrow> int \<times> int \<Rightarrow> int list \<Rightarrow> py_error + image" where
  "rearrange_image image' tile_size ordering' =
     bindE (py_truediv (fst (im_size image')) (fst tile_size)) (\<lambda>cols.
     bindE (py_truediv (snd (im_size image')) (snd tile_size)) (\<lambda>rows.
     bindE (valid_input (im_size image') tile_size ordering') (\<lambda>valid.
     if \<not> valid then Inl (ValueError invalid_message)
     else
       bindE (split_image_with_tile image' tile_size) (\<lambda>parts.
       join_parts parts ordering' rows cols (im_mode image')))))"

definition rearrange_tiles ::
  "filesystem \<Rightarrow> string \<Rightarrow> int \<times> int \<Rightarrow> int list \<Rightarrow> string \<Rightarrow> (py_error + unit) \<times> filesystem" where
  "rearrange_tiles fs image_path tile_size ordering' out_path =
     (case bindE (Image_open fs image_path) (\<lambda>image'. rearrange_image image' tile_size ordering') of
        Inl e \<Rightarrow> (Inl e, fs)
      | Inr final_image \<Rightarrow> (Inr (), save fs final_image out_path))"

section \<open>Grid cells and sample data\<close>

text \<open>
  The pixel \<open>(x, y)\<close> lies in grid cell \<open>idx\<close> of a grid with \<open>c\<close> columns and tiles of
  size \<open>(pw, ph)\<close> when its offset from the cell's corner
  \<open>(idx % c * pw, idx // c * ph)\<close>, the paste position of the joiner, is inside a tile.
\<close>

definition in_cell :: "int \<Rightarrow> int \<Rightarrow> int \<Rightarrow> int \<Rightarrow> int \<Rightarrow> int \<Rightarrow> bool" where
  "in_cell c pw ph idx x y =
     (0 \<le> x - idx mod c * pw \<and> x - idx mod c * pw < pw \<and>
      0 \<le> y - idx div c * ph \<and> y - idx div c * ph < ph)"

text \<open>A concrete image for the examples: every pixel differs from its neighbours and from blank.\<close>

definition sample_image :: "int \<Rightarrow> int \<Rightarrow> image" where
  "sample_image w h = \<lparr>im_size = (w, h), im_mode = ''L'', im_pix = (\<lambda>x y. nat (x + w * y + 1))\<rparr>"

text \<open>The number of tiles the splitter returns.\<close>

definition tile_count :: "image \<Rightarrow> int \<times> int \<Rightarrow> py_error + nat" where
  "tile_count img tile_size = bindE (split_image_with_tile img tile_size) (\<lambda>parts. Inr (length parts))"

text \<open>The pixel at \<open>(x, y)\<close> of the result of a computation that may have raised.\<close>

definition pixel_of :: "py_error + image \<Rightarrow> int \<Rightarrow> int \<Rightarrow> py_error + pixel" where
  "pixel_of r x y = bindE r (\<lambda>img. if in_bounds img x y then Inr (im_pix img x y) else Inl IndexError)"

section \<open>Python arithmetic on integer-valued floats\<close>

lemma bindE_Inr: "bindE (Inr a) f = f a"
  by (simp add: bindE_def)

lemma bindE_Inl: "bindE (Inl e) f = Inl e"
  by (simp add: bindE_def)

lemma bindE_Inr_iff: "bindE m f = Inr v \<longleftrightarrow> (\<exists>a. m = Inr a \<and> f a = Inr v)"
  by (cases m) (simp_all add: bindE_def)

lemma card_set_length_iff: "card (set xs) = length xs \<longleftrightarrow> distinct xs"
  using card_distinct distinct_card by blast

lemma of_int_div_exact:
  "b \<noteq> 0 \<Longrightarrow> a mod b = 0 \<Longrightarrow> (of_int a / of_int b :: rat) = of_int (a div b)"
  by (metis dvd_div_mult_self mod_0_imp_dvd nonzero_mult_div_cancel_right of_int_eq_0_iff of_int_mult)

lemma py_fmod_of_int: "n \<noteq> 0 \<Longrightarrow> py_fmod (of_int k) (of_int n) = Inr (of_int (k mod n))"
  by (simp add: py_fmod_def floor_divide_of_int_eq minus_mult_div_eq_mod flip: of_int_mult of_int_diff)

lemma py_ffloordiv_of_int: "n \<noteq> 0 \<Longrightarrow> py_ffloordiv (of_int k) (of_int n) = Inr (of_int (k div n))"
  by (simp add: py_ffloordiv_def floor_divide_of_int_eq)

lemma py_int_of_int: "py_int (of_int k) = k"
  by (simp add: py_int_def)

section \<open>The joiner's loop\<close>

lemma paste_size: "im_size (paste dst part pos) = im_size dst"
  by (cases pos) (simp add: paste_def)

lemma paste_mode: "im_mode (paste dst part pos) = im_mode dst"
  by (cases pos) (simp add: paste_def)

lemma paste_in_bounds: "in_bounds (paste dst part pos) x y = in_bounds dst x y"
  by (simp add: in_bounds_def paste_size)

lemma paste_pix:
  "im_pix (paste dst part (left, upper)) x y =
     (if in_bounds dst x y \<and> in_bounds part (x - left) (y - upper)
      then im_pix part (x - left) (y - upper) else im_pix dst x y)"
  by (simp add: paste_def)

declare join_loop.simps(2) [simp del]

lemma join_loop_Cons:
  "c \<noteq> 0 \<Longrightarrow>
   join_loop parts (of_int c) pw ph idx (p # rest) joined =
     bindE (py_getitem parts p) (\<lambda>part.
       join_loop parts (of_int c) pw ph (idx + 1) rest
         (paste joined part (idx mod c * pw, idx div c * ph)))"
  by (simp add: py_fmod_of_int py_ffloordiv_of_int py_int_of_int bindE_Inr join_loop.simps(2))

lemma join_loop_size:
  "join_loop parts cols pw ph idx order joined = Inr out \<Longrightarrow>
   im_size out = im_size joined \<and> im_mode out = im_mode joined"
proof (induction order arbitrary: idx joined)
  case Nil
  then show ?case by simp
next
  case (Cons p rest)
  then show ?case
    by (auto simp: bindE_Inr_iff Let_def paste_size paste_mode join_loop.simps(2))
qed

lemma py_getitem_Inr: "py_getitem xs i = Inr v \<Longrightarrow> v \<in> set xs"
  by (auto simp: py_getitem_def Let_def split: if_splits)

lemma py_getitem_nonneg: "0 \<le> i \<Longrightarrow> i < int (length xs) \<Longrightarrow> py_getitem xs i = Inr (xs ! nat i)"
  by (simp add: py_getitem_def)

lemma py_getitem_total:
  "- int (length xs) \<le> i \<Longrightarrow> i < int (length xs) \<Longrightarrow> \<exists>v. py_getitem xs i = Inr v"
  by (simp add: py_getitem_def Let_def)

lemma py_getitem_out_of_range:
  "i < - int (length xs) \<or> int (length xs) \<le> i \<Longrightarrow> py_getitem xs i = Inl IndexError"
  by (auto simp: py_getitem_def Let_def)

lemma offset_in_tile_iff:
  fixes v q w :: int
  assumes w: "0 < w"
  shows "(0 \<le> v - q * w \<and> v - q * w < w) \<longleftrightarrow> v div w = q"
proof
  assume h: "0 \<le> v - q * w \<and> v - q * w < w"
  have "v = w * q + (v - q * w)" by simp
  then show "v div w = q" using h int_div_pos_eq [of v w q "v - q * w"] by simp
next
  assume q: "v div w = q"
  have "v - v div w * w = v mod w" by (simp add: minus_div_mult_eq_mod)
  then have "v - q * w = v mod w" unfolding q .
  then show "0 \<le> v - q * w \<and> v - q * w < w" using w by simp
qed

lemma in_cell_iff:
  assumes "0 < pw" "0 < ph"
  shows "in_cell c pw ph idx x y \<longleftrightarrow> x div pw = idx mod c \<and> y div ph = idx div c"
  unfolding in_cell_def
  by (simp only: offset_in_tile_iff [OF assms(1)] offset_in_tile_iff [OF assms(2)] conj_assoc [symmetric])

lemma in_cell_unique:
  assumes "0 < pw" "0 < ph" "in_cell c pw ph i x y" "in_cell c pw ph j x y"
  shows "i = j"
proof -
  have "i mod c = j mod c" "i div c = j div c"
    using assms by (simp_all add: in_cell_iff)
  then show ?thesis by (metis div_mult_mod_eq)
qed


lemma join_loop_untouched:
  assumes "c \<noteq> 0" "\<forall>p \<in> set parts. im_size p = (pw, ph)"
  shows "join_loop parts (of_int c) pw ph idx order joined = Inr out \<Longrightarrow>
     (\<forall>k < length order. \<not> in_cell c pw ph (idx + int k) x y) \<Longrightarrow>
     im_pix out x y = im_pix joined x y"
proof (induction order arbitrary: idx joined)
  case Nil
  then show ?case by simp
next
  case (Cons p rest)
  have "bindE (py_getitem parts p) (\<lambda>part.
       join_loop parts (of_int c) pw ph (idx + 1) rest
         (paste joined part (idx mod c * pw, idx div c * ph))) = Inr out"
    using Cons.prems(1) by (simp only: join_loop_Cons [OF assms(1)])
  then obtain part where part: "py_getitem parts p = Inr part"
    and rec: "join_loop parts (of_int c) pw ph (idx + 1) rest
                (paste joined part (idx mod c * pw, idx div c * ph)) = Inr out"
    by (cases "py_getitem parts p") (simp_all add: bindE_def)
  have sz: "im_size part = (pw, ph)" using assms(2) py_getitem_Inr [OF part] by simp
  have nxt: "\<forall>k < length rest. \<not> in_cell c pw ph (idx + 1 + int k) x y"
  proof (intro allI impI)
    fix k assume "k < length rest"
    then have "Suc k < length (p # rest)" by simp
    then have "\<not> in_cell c pw ph (idx + int (Suc k)) x y" using Cons.prems(2) by blast
    then show "\<not> in_cell c pw ph (idx + 1 + int k) x y" by (simp add: add.assoc)
  qed
  have "im_pix out x y = im_pix (paste joined part (idx mod c * pw, idx div c * ph)) x y"
    by (rule Cons.IH [OF rec nxt])
  moreover have "0 < length (p # rest)" by simp
  then have "\<not> in_cell c pw ph (idx + int 0) x y" using Cons.prems(2) by blast
  then have "\<not> in_bounds part (x - idx mod c * pw) (y - idx div c * ph)"
    by (simp add: in_cell_def in_bounds_def sz)
  ultimately show ?case by (simp add: paste_pix)
qed

lemma join_loop_cell:
  assumes "c \<noteq> 0" "0 < pw" "0 < ph" "\<forall>p \<in> set parts. im_size p = (pw, ph)"
  shows "join_loop parts (of_int c) pw ph idx order joined = Inr out \<Longrightarrow>
     k < length order \<Longrightarrow> in_cell c pw ph (idx + int k) x y \<Longrightarrow> in_bounds joined x y \<Longrightarrow>
     \<exists>part. py_getitem parts (order ! k) = Inr part \<and>
       im_pix out x y = im_pix part (x - (idx + int k) mod c * pw) (y - (idx + int k) div c * ph)"
proof (induction order arbitrary: idx joined k)
  case Nil
  then show ?case by simp
next
  case (Cons p rest)
  have "bindE (py_getitem parts p) (\<lambda>part.
       join_loop parts (of_int c) pw ph (idx + 1) rest
         (paste joined part (idx mod c * pw, idx div c * ph))) = Inr out"
    using Cons.prems(1) by (simp only: join_loop_Cons [OF assms(1)])
  then obtain part where part: "py_getitem parts p = Inr part"
    and rec: "join_loop parts (of_int c) pw ph (idx + 1) rest
                (paste joined part (idx mod c * pw, idx div c * ph)) = Inr out"
    by (cases "py_getitem parts p") (simp_all add: bindE_def)
  have sz: "im_size part = (pw, ph)" using assms(4) py_getitem_Inr [OF part] by simp
  show ?case
  proof (cases k)
    case 0
    have "\<forall>j < length rest. \<not> in_cell c pw ph (idx + 1 + int j) x y"
    proof (intro allI impI notI)
      fix j assume "j < length rest" and j: "in_cell c pw ph (idx + 1 + int j) x y"
      have "in_cell c pw ph idx x y" using Cons.prems(3) 0 by simp
      with j have "idx + 1 + int j = idx" by (rule in_cell_unique [OF assms(2,3)])
      then show False by simp
    qed
    from join_loop_untouched [OF assms(1,4) rec this]
    have "im_pix out x y = im_pix (paste joined part (idx mod c * pw, idx div c * ph)) x y" .
    moreover have "in_bounds part (x - idx mod c * pw) (y - idx div c * ph)"
      using Cons.prems(3) 0 by (simp add: in_cell_def in_bounds_def sz)
    ultimately show ?thesis using 0 part Cons.prems(4) by (simp add: paste_pix)
  next
    case (Suc k')
    have "k' < length rest" using Cons.prems(2) Suc by simp
    moreover have "in_cell c pw ph (idx + 1 + int k') x y"
      using Cons.prems(3) Suc by (simp add: add.assoc)
    moreover have "in_bounds (paste joined part (idx mod c * pw, idx div c * ph)) x y"
      using Cons.prems(4) by (simp add: paste_in_bounds)
    ultimately obtain part' where "py_getitem parts (rest ! k') = Inr part'"
      "im_pix out x y = im_pix part' (x - (idx + 1 + int k') mod c * pw) (y - (idx + 1 + int k') div c * ph)"
      using Cons.IH [OF rec] by blast
    then show ?thesis using Suc by (simp add: add.assoc)
  qed
qed

lemma join_loop_total:
  assumes "c \<noteq> 0"
  shows "\<forall>v \<in> set order. - int (length parts) \<le> v \<and> v < int (length parts) \<Longrightarrow>
     \<exists>out. join_loop parts (of_int c) pw ph idx order joined = Inr out"
proof (induction order arbitrary: idx joined)
  case Nil
  then show ?case by simp
next
  case (Cons p rest)
  then obtain part where "py_getitem parts p = Inr part"
    using py_getitem_total [of parts p] by auto
  moreover have "\<exists>out. join_loop parts (of_int c) pw ph (idx + 1) rest
      (paste joined part (idx mod c * pw, idx div c * ph)) = Inr out"
    using Cons.IH Cons.prems by simp
  ultimately show ?case by (simp add: join_loop_Cons [OF assms] bindE_Inr)
qed

lemma join_loop_bad_index:
  assumes "c \<noteq> 0"
  shows "\<exists>v \<in> set order. v < - int (length parts) \<or> int (length parts) \<le> v \<Longrightarrow>
     join_loop parts (of_int c) pw ph idx order joined = Inl IndexError"
proof (induction order arbitrary: idx joined)
  case Nil
  then show ?case by simp
next
  case (Cons p rest)
  show ?case
  proof (cases "p < - int (length parts) \<or> int (length parts) \<le> p")
    case True
    then show ?thesis by (simp add: join_loop_Cons [OF assms] py_getitem_out_of_range bindE_Inl)
  next
    case False
    then obtain part where "py_getitem parts p = Inr part"
      using py_getitem_total [of parts p] by auto
    moreover have "\<exists>v \<in> set rest. v < - int (length parts) \<or> int (length parts) \<le> v"
      using Cons.prems False by auto
    ultimately show ?thesis using Cons.IH by (simp add: join_loop_Cons [OF assms] bindE_Inr)
  qed
qed

section \<open>The splitter's grid\<close>

lemma py_range_exact:
  assumes "0 < step" and "0 \<le> n"
  shows "py_range 0 (n * step) step = Inr (map (\<lambda>k. int k * step) [0..<nat n])"
proof -
  have "(n * step + (step - 1)) div step = n + (step - 1) div step"
    using assms(1) by simp
  also have "(step - 1) div step = 0"
    using assms(1) by simp
  finally have "(n * step - 0 + step - 1) div step = n"
    by (simp add: algebra_simps)
  then show ?thesis using assms(1) by (simp add: py_range_def)
qed

lemma py_range_nonempty:
  assumes "0 \<le> stop" and "py_range 0 stop step = Inr ys" and "ys \<noteq> []"
  shows "0 < step \<and> 0 < stop"
proof -
  have s0: "step \<noteq> 0" using assms(2) by (auto simp: py_range_def)
  have "\<not> step < 0"
  proof
    assume neg: "step < 0"
    have "(0 - stop - step - 1) div (- step) \<le> 0"
    proof (cases "0 \<le> 0 - stop - step - 1")
      case True
      then have "(0 - stop - step - 1) div (- step) = 0"
        using assms(1) neg by (intro div_pos_pos_trivial) simp_all
      then show ?thesis by simp
    next
      case False
      then have "(0 - stop - step - 1) div (- step) < 0"
        using neg by (simp add: div_neg_pos_less0)
      then show ?thesis by simp
    qed
    then have "ys = []" using assms(2) neg by (simp add: py_range_def)
    then show False using assms(3) by simp
  qed
  then have pos: "0 < step" using s0 by simp
  have "\<not> stop \<le> 0"
  proof
    assume "stop \<le> 0"
    then have "stop = 0" using assms(1) by simp
    then have "(stop - 0 + step - 1) div step = 0" using pos by simp
    then have "ys = []" using assms(2) pos by (simp add: py_range_def)
    then show False using assms(3) by simp
  qed
  then show ?thesis using pos by simp
qed

lemma py_range_total: "step \<noteq> 0 \<Longrightarrow> \<exists>ys. py_range start stop step = Inr ys"
  by (simp add: py_range_def)

lemma split_cols_map:
  "split_cols img tw th y xs = map (\<lambda>x. crop img (x, y, x + tw, y + th)) xs"
  by (induction xs) simp_all

lemma split_rows_concat:
  "py_range 0 width tw = Inr xs \<Longrightarrow>
   split_rows img tw th width ys =
     Inr (concat (map (\<lambda>y. map (\<lambda>x. crop img (x, y, x + tw, y + th)) xs) ys))"
  by (induction ys) (simp_all add: bindE_Inr split_cols_map)

lemma split_rows_total:
  "tw \<noteq> 0 \<Longrightarrow> \<exists>parts. split_rows img tw th width ys = Inr parts"
  using py_range_total [of tw 0 width] split_rows_concat by blast

lemma grid_length:
  "length (concat (map (\<lambda>j. map (f j) [0..<c]) [0..<r])) = r * c"
  by (induction r) simp_all

lemma grid_nth:
  "i < r * c \<Longrightarrow> concat (map (\<lambda>j. map (f j) [0..<c]) [0..<r]) ! i = f (i div c) (i mod c)"
proof (induction r)
  case 0
  then show ?case by simp
next
  case (Suc r)
  show ?case
  proof (cases "i < r * c")
    case True
    then show ?thesis using Suc.IH by (simp add: nth_append grid_length)
  next
    case False
    then have ge: "r * c \<le> i" by simp
    have lt: "i - r * c < c" using Suc.prems ge by simp
    have "i = r * c + (i - r * c)" using ge by simp
    then have d: "i div c = r" and m: "i mod c = i - r * c"
      using lt by (metis div_mult_self3 div_less add.right_neutral less_nat_zero_code mult_0_right,
        metis mod_mult_self3 mod_less)
    show ?thesis using False lt by (simp add: nth_append grid_length d m)
  qed
qed

section \<open>Tiles of an evenly divided image\<close>

lemma crop_size: "im_size (crop img (l, u, r, b)) = (r - l, b - u)"
  by (simp add: crop_def)

lemma crop_mode: "im_mode (crop img box) = im_mode img"
  by (cases box) (simp add: crop_def)

lemma crop_pix:
  "in_bounds img (l + x) (u + y) \<Longrightarrow> im_pix (crop img (l, u, r, b)) x y = im_pix img (l + x) (u + y)"
  by (simp add: crop_def)

lemma split_grid:
  assumes "0 < tw" and "0 < th" and "0 \<le> c" and "0 \<le> r" and "im_size img = (c * tw, r * th)"
  shows "split_image_with_tile img (tw, th) =
           Inr (concat (map (\<lambda>j. map (\<lambda>i. crop img (int i * tw, int j * th, int i * tw + tw, int j * th + th))
                                    [0..<nat c]) [0..<nat r]))"
proof -
  have "split_image_with_tile img (tw, th) =
          split_rows img tw th (c * tw) (map (\<lambda>k. int k * th) [0..<nat r])"
    using assms(5) py_range_exact [OF assms(2,4)]
    by (simp add: split_image_with_tile_def bindE_Inr)
  also have "\<dots> = Inr (concat (map (\<lambda>y. map (\<lambda>x. crop img (x, y, x + tw, y + th))
                 (map (\<lambda>k. int k * tw) [0..<nat c])) (map (\<lambda>k. int k * th) [0..<nat r])))"
    by (rule split_rows_concat [OF py_range_exact [OF assms(1,3)]])
  finally show ?thesis by (simp add: comp_def)
qed

lemma split_tiles:
  assumes "0 < tw" and "0 < th" and "0 \<le> W" and "0 \<le> H"
    and "W mod tw = 0" and "H mod th = 0" and "im_size img = (W, H)"
  shows "\<exists>parts. split_image_with_tile img (tw, th) = Inr parts \<and>
           int (length parts) = W div tw * (H div th) \<and>
           (\<forall>i < length parts.
              parts ! i = crop img (int i mod (W div tw) * tw, int i div (W div tw) * th,
                                    int i mod (W div tw) * tw + tw, int i div (W div tw) * th + th))"
proof -
  define c where "c = W div tw"
  define r where "r = H div th"
  have c0: "0 \<le> c" and r0: "0 \<le> r"
    using assms(1-4) by (simp_all add: c_def r_def pos_imp_zdiv_nonneg_iff)
  have W: "W = c * tw" and H: "H = r * th"
    using assms(5,6) by (auto simp: c_def r_def)
  let ?f = "\<lambda>j i. crop img (int i * tw, int j * th, int i * tw + tw, int j * th + th)"
  let ?parts = "concat (map (\<lambda>j. map (?f j) [0..<nat c]) [0..<nat r])"
  have sp: "split_image_with_tile img (tw, th) = Inr ?parts"
    using split_grid [OF assms(1,2) c0 r0] assms(7) W H by simp
  have len: "length ?parts = nat r * nat c" by (rule grid_length)
  then have leni: "int (length ?parts) = c * r"
    using c0 r0 by (simp add: nat_mult_distrib mult.commute)
  have nth: "\<forall>i < length ?parts. ?parts ! i = crop img (int i mod c * tw, int i div c * th,
                 int i mod c * tw + tw, int i div c * th + th)"
  proof (intro allI impI)
    fix i assume "i < length ?parts"
    then have i: "i < nat r * nat c" using len by simp
    have "?parts ! i = ?f (i div nat c) (i mod nat c)" by (rule grid_nth [OF i])
    moreover have "int (i div nat c) = int i div c" "int (i mod nat c) = int i mod c"
      using c0 by (simp_all add: zdiv_int zmod_int)
    ultimately show "?parts ! i = crop img (int i mod c * tw, int i div c * th,
                 int i mod c * tw + tw, int i div c * th + th)" by simp
  qed
  show ?thesis using sp leni nth unfolding c_def r_def by blast
qed

lemma split_nonempty:
  assumes "0 \<le> W" and "0 \<le> H" and "im_size img = (W, H)"
    and "split_image_with_tile img (tw, th) = Inr parts" and "parts \<noteq> []"
  shows "0 < tw \<and> 0 < th \<and> 0 < W \<and> 0 < H"
proof -
  from assms(3,4) obtain ys where ys: "py_range 0 H th = Inr ys"
    and rows: "split_rows img tw th W ys = Inr parts"
    by (auto simp: split_image_with_tile_def bindE_Inr_iff)
  have "ys \<noteq> []" using rows assms(5) by (cases ys) auto
  then have h: "0 < th \<and> 0 < H" using py_range_nonempty [OF assms(2) ys] by simp
  from rows \<open>ys \<noteq> []\<close> obtain xs where xs: "py_range 0 W tw = Inr xs"
    by (cases ys) (auto simp: bindE_Inr_iff)
  have "xs \<noteq> []"
  proof
    assume "xs = []"
    then have "parts = []" using split_rows_concat [OF xs, of img th ys] rows by simp
    then show False using assms(5) by simp
  qed
  then have "0 < tw \<and> 0 < W" using py_range_nonempty [OF assms(1) xs] by simp
  then show ?thesis using h by simp
qed

lemma join_parts_unfold:
  assumes "parts \<noteq> []" and "im_size (parts ! 0) = (pw, ph)" and "0 \<le> c * pw" and "0 \<le> r * ph"
  shows "join_parts parts order (of_int r) (of_int c) md =
           join_loop parts (of_int c) pw ph 0 order
             \<lparr>im_size = (c * pw, r * ph), im_mode = md, im_pix = (\<lambda>x y. 0)\<rparr>"
proof -
  have g: "py_getitem parts 0 = Inr (parts ! 0)"
    using assms(1) by (simp add: py_getitem_def)
  have w: "py_int (of_int c * of_int pw) = c * pw" "py_int (of_int r * of_int ph) = r * ph"
    using py_int_of_int [of "c * pw"] py_int_of_int [of "r * ph"] by simp_all
  show ?thesis
    using assms(2-4) by (simp add: join_parts_def g bindE_Inr w Image_new_def)
qed

section \<open>Validation and the orchestrator's core\<close>

lemma valid_input_True_iff:
  "valid_input (W, H) (tw, th) ordering' = Inr True \<longleftrightarrow>
     distinct ordering' \<and> ordering' \<noteq> [] \<and> tw \<noteq> 0 \<and> th \<noteq> 0 \<and> W mod tw = 0 \<and> H mod th = 0 \<and>
     (W div tw * (H div th)) mod int (length ordering') = 0"
proof (cases "distinct ordering' \<and> tw \<noteq> 0 \<and> th \<noteq> 0 \<and> W mod tw = 0 \<and> H mod th = 0")
  case False
  then show ?thesis
    by (auto simp: valid_input_def card_set_length_iff py_mod_def bindE_def)
next
  case True
  then have c: "card (set ordering') = length ordering'" by (simp add: distinct_card)
  show ?thesis
  proof (cases "ordering' = []")
    case True
    then show ?thesis
      by (simp add: valid_input_def py_mod_def py_truediv_def py_fmod_def bindE_def)
  next
    case False
    then have n: "int (length ordering') \<noteq> 0" by simp
    have "py_fmod (of_int W / of_int tw * (of_int H / of_int th)) (of_int (int (length ordering')))
        = Inr (of_int ((W div tw * (H div th)) mod int (length ordering')))"
      using py_fmod_of_int [OF n, of "W div tw * (H div th)"] True
      by (simp add: of_int_div_exact)
    then show ?thesis
      using True False c by (simp add: valid_input_def bindE_def py_mod_def py_truediv_def)
  qed
qed

lemma rearrange_image_valid:
  assumes "im_size img = (W, H)" and "valid_input (W, H) (tw, th) ordering' = Inr True"
    and "split_image_with_tile img (tw, th) = Inr parts"
  shows "rearrange_image img (tw, th) ordering' =
           join_parts parts ordering' (of_int (H div th)) (of_int (W div tw)) (im_mode img)"
proof -
  have v: "tw \<noteq> 0" "th \<noteq> 0" "W mod tw = 0" "H mod th = 0"
    using assms(2) by (simp_all add: valid_input_True_iff)
  show ?thesis
    using assms v by (simp add: rearrange_image_def py_truediv_def bindE_Inr of_int_div_exact)
qed

lemma join_parts_grid:
  assumes "0 < c" and "0 \<le> r" and "0 < pw" and "0 < ph" and "parts \<noteq> []"
    and "\<forall>p \<in> set parts. im_size p = (pw, ph)"
    and "\<forall>v \<in> set order. - int (length parts) \<le> v \<and> v < int (length parts)"
  shows "\<exists>out. join_parts parts order (of_int r) (of_int c) md = Inr out \<and>
           im_size out = (c * pw, r * ph) \<and> im_mode out = md \<and>
           (\<forall>k x y. k < length order \<and> in_cell c pw ph (int k) x y \<and> in_bounds out x y \<longrightarrow>
              (\<exists>part. py_getitem parts (order ! k) = Inr part \<and>
                 im_pix out x y = im_pix part (x - int k mod c * pw) (y - int k div c * ph))) \<and>
           (\<forall>x y. (\<forall>k < length order. \<not> in_cell c pw ph (int k) x y) \<longrightarrow> im_pix out x y = 0)"
proof -
  let ?canvas = "\<lparr>im_size = (c * pw, r * ph), im_mode = md, im_pix = (\<lambda>x y. 0)\<rparr>"
  have c0: "c \<noteq> 0" using assms(1) by simp
  have sz0: "im_size (parts ! 0) = (pw, ph)" using assms(5,6) by simp
  have nn: "0 \<le> c * pw" "0 \<le> r * ph" using assms(1-4) by simp_all
  have unf: "join_parts parts order (of_int r) (of_int c) md =
               join_loop parts (of_int c) pw ph 0 order ?canvas"
    by (rule join_parts_unfold [OF assms(5) sz0 nn])
  obtain out where out: "join_loop parts (of_int c) pw ph 0 order ?canvas = Inr out"
    using join_loop_total [OF c0 assms(7)] by blast
  have sz: "im_size out = (c * pw, r * ph)" "im_mode out = md"
    using join_loop_size [OF out] by simp_all
  have cells: "\<forall>k x y. k < length order \<and> in_cell c pw ph (int k) x y \<and> in_bounds out x y \<longrightarrow>
              (\<exists>part. py_getitem parts (order ! k) = Inr part \<and>
                 im_pix out x y = im_pix part (x - int k mod c * pw) (y - int k div c * ph))"
  proof (intro allI impI)
    fix k x y
    assume h: "k < length order \<and> in_cell c pw ph (int k) x y \<and> in_bounds out x y"
    then have b: "in_bounds ?canvas x y" using sz by (simp add: in_bounds_def)
    from h have ic: "in_cell c pw ph (0 + int k) x y" by simp
    from h have k: "k < length order" by simp
    show "\<exists>part. py_getitem parts (order ! k) = Inr part \<and>
                 im_pix out x y = im_pix part (x - int k mod c * pw) (y - int k div c * ph)"
      using join_loop_cell [OF c0 assms(3,4,6) out k ic b] by simp
  qed
  have blank: "\<forall>x y. (\<forall>k < length order. \<not> in_cell c pw ph (int k) x y) \<longrightarrow> im_pix out x y = 0"
  proof (intro allI impI)
    fix x y
    assume "\<forall>k < length order. \<not> in_cell c pw ph (int k) x y"
    then have "\<forall>k < length order. \<not> in_cell c pw ph (0 + int k) x y" by simp
    from join_loop_untouched [OF c0 assms(6) out this]
    show "im_pix out x y = 0" by simp
  qed
  show ?thesis using unf out sz cells blank by simp
qed

lemma join_loop_result:
  assumes "c \<noteq> 0"
  shows "(\<exists>out. join_loop parts (of_int c) pw ph idx order joined = Inr out) \<or>
         join_loop parts (of_int c) pw ph idx order joined = Inl IndexError"
proof (cases "\<forall>v \<in> set order. - int (length parts) \<le> v \<and> v < int (length parts)")
  case True
  then show ?thesis using join_loop_total [OF assms] by blast
next
  case False
  then have "\<exists>v \<in> set order. v < - int (length parts) \<or> int (length parts) \<le> v"
    by (meson not_le)
  then show ?thesis using join_loop_bad_index [OF assms] by blast
qed

section \<open>Pixels and grid cells\<close>

lemma int_div_less:
  fixes c r idx :: int
  assumes "0 < c" and "idx < c * r"
  shows "idx div c < r"
proof (rule ccontr)
  assume "\<not> idx div c < r"
  then have "c * r \<le> c * (idx div c)" using assms(1) by (simp add: mult_left_mono)
  moreover have "c * (idx div c) + idx mod c = idx" by simp
  moreover have "0 \<le> idx mod c" using assms(1) by simp
  ultimately show False using assms(2) by linarith
qed

lemma grid_positive:
  fixes W tw :: int
  assumes "0 < W" and "0 < tw" and "W mod tw = 0"
  shows "0 < W div tw" and "W div tw * tw = W"
proof -
  show e: "W div tw * tw = W" using assms(3) by auto
  show "0 < W div tw"
  proof (rule ccontr)
    assume "\<not> 0 < W div tw"
    then have "W div tw * tw \<le> 0" using assms(2) by (simp add: mult_le_0_iff)
    then show False using e assms(1) by simp
  qed
qed

lemma pixel_cell:
  fixes c r tw th x y :: int
  assumes "0 < tw" and "0 < th" and "0 < c"
    and "0 \<le> x" and "x < c * tw" and "0 \<le> y" and "y < r * th"
  shows "0 \<le> y div th * c + x div tw \<and> y div th * c + x div tw < c * r \<and>
         in_cell c tw th (y div th * c + x div tw) x y"
proof -
  define a where "a = x div tw"
  define b where "b = y div th"
  have a0: "0 \<le> a" and b0: "0 \<le> b"
    using assms(1,2,4,6) by (simp_all add: a_def b_def pos_imp_zdiv_nonneg_iff)
  have a1: "a < c" unfolding a_def using assms(1,5) by (intro int_div_less) (simp_all add: mult.commute)
  have b1: "b < r" unfolding b_def using assms(2,7) by (intro int_div_less) (simp_all add: mult.commute)
  have m: "(b * c + a) mod c = a" using a0 a1 by simp
  have d: "(b * c + a) div c = b" using a0 a1 assms(3) by simp
  have "b * c + a < (b + 1) * c" using a1 by (simp add: algebra_simps)
  also have "\<dots> \<le> r * c" using b1 assms(3) by (simp add: mult_right_mono)
  finally have lt: "b * c + a < c * r" by (simp add: mult.commute)
  have ge: "0 \<le> b * c + a" using a0 b0 assms(3) by simp
  have "in_cell c tw th (b * c + a) x y"
    using assms(1,2) m d by (simp add: in_cell_iff a_def b_def)
  then show ?thesis using lt ge unfolding a_def b_def by simp
qed

lemma cell_pixel_in_cell:
  assumes "0 \<le> dx" and "dx < pw" and "0 \<le> dy" and "dy < ph"
  shows "in_cell c pw ph idx (idx mod c * pw + dx) (idx div c * ph + dy)"
  using assms by (simp add: in_cell_def)

lemma cell_pixel_in_canvas:
  fixes c r idx dx dy pw ph :: int
  assumes "0 < c" and "0 \<le> idx" and "idx < c * r"
    and "0 \<le> dx" and "dx < pw" and "0 \<le> dy" and "dy < ph"
  shows "0 \<le> idx mod c * pw + dx \<and> idx mod c * pw + dx < c * pw \<and>
         0 \<le> idx div c * ph + dy \<and> idx div c * ph + dy < r * ph"
proof -
  have pw: "0 < pw" and ph: "0 < ph" using assms(4-7) by simp_all
  have m0: "0 \<le> idx mod c" and m1: "idx mod c + 1 \<le> c"
    using assms(1) by (simp_all add: add1_zle_eq)
  have d0: "0 \<le> idx div c" using assms(1,2) by (simp add: pos_imp_zdiv_nonneg_iff)
  have "idx div c < r"
    using assms(1,3) by (rule int_div_less)
  then have d1: "idx div c + 1 \<le> r" by simp
  have "idx mod c * pw + dx < (idx mod c + 1) * pw" using assms(5) by (simp add: algebra_simps)
  also have "\<dots> \<le> c * pw" using m1 pw by (simp add: mult_right_mono)
  finally have x1: "idx mod c * pw + dx < c * pw" .
  have "idx div c * ph + dy < (idx div c + 1) * ph" using assms(7) by (simp add: algebra_simps)
  also have "\<dots> \<le> r * ph" using d1 ph by (simp add: mult_right_mono)
  finally have y1: "idx div c * ph + dy < r * ph" .
  have "0 \<le> idx mod c * pw" "0 \<le> idx div c * ph" using m0 d0 pw ph by simp_all
  then show ?thesis using x1 y1 assms(4,6) by simp
qed

lemma split_tiles_size:
  assumes "0 < tw" and "0 < th" and "0 \<le> W" and "0 \<le> H"
    and "W mod tw = 0" and "H mod th = 0" and "im_size img = (W, H)"
    and "split_image_with_tile img (tw, th) = Inr parts"
  shows "\<forall>p \<in> set parts. im_size p = (tw, th)"
proof
  fix p assume "p \<in> set parts"
  then obtain i where i: "i < length parts" and p: "p = parts ! i"
    by (auto simp: in_set_conv_nth)
  from split_tiles [OF assms(1-7)] assms(8) i
  have "parts ! i = crop img (int i mod (W div tw) * tw, int i div (W div tw) * th,
                              int i mod (W div tw) * tw + tw, int i div (W div tw) * th + th)"
    by auto
  then show "im_size p = (tw, th)" using p by (simp add: crop_size)
qed

lemma rearrange_image_result:
  assumes "im_size img = (W, H)" and "0 \<le> W" and "0 \<le> H"
    and "valid_input (W, H) (tw, th) ordering' = Inr True"
  shows "\<exists>parts. split_image_with_tile img (tw, th) = Inr parts \<and>
           (if parts = [] then rearrange_image img (tw, th) ordering' = Inl IndexError
            else 0 < W div tw \<and> 0 < tw \<and> 0 < th \<and>
                 rearrange_image img (tw, th) ordering' =
                   join_loop parts (of_int (W div tw)) tw th 0 ordering'
                     \<lparr>im_size = (W, H), im_mode = im_mode img, im_pix = (\<lambda>x y. 0)\<rparr>)"
proof -
  have v: "tw \<noteq> 0" "th \<noteq> 0" "W mod tw = 0" "H mod th = 0"
    using assms(4) by (simp_all add: valid_input_True_iff)
  obtain ys where ys: "py_range 0 H th = Inr ys" using py_range_total [OF v(2)] by blast
  obtain parts where rows: "split_rows img tw th W ys = Inr parts"
    using split_rows_total [OF v(1)] by blast
  have sp: "split_image_with_tile img (tw, th) = Inr parts"
    using assms(1) ys rows by (simp add: split_image_with_tile_def bindE_Inr)
  have re: "rearrange_image img (tw, th) ordering' =
              join_parts parts ordering' (of_int (H div th)) (of_int (W div tw)) (im_mode img)"
    by (rule rearrange_image_valid [OF assms(1,4) sp])
  show ?thesis
  proof (cases "parts = []")
    case True
    then have "rearrange_image img (tw, th) ordering' = Inl IndexError"
      using re by (simp add: join_parts_def py_getitem_def bindE_def)
    then show ?thesis using sp True by simp
  next
    case False
    have pos: "0 < tw \<and> 0 < th \<and> 0 < W \<and> 0 < H"
      by (rule split_nonempty [OF assms(2,3,1) sp False])
    then have c: "0 < W div tw" "W div tw * tw = W" and r: "0 < H div th" "H div th * th = H"
      using v(3,4) by (simp_all add: grid_positive)
    have sizes: "\<forall>p \<in> set parts. im_size p = (tw, th)"
      using split_tiles_size [OF _ _ assms(2,3) v(3,4) assms(1) sp] pos by simp
    then have sz0: "im_size (parts ! 0) = (tw, th)" using False by simp
    have "join_parts parts ordering' (of_int (H div th)) (of_int (W div tw)) (im_mode img) =
            join_loop parts (of_int (W div tw)) tw th 0 ordering'
              \<lparr>im_size = (W div tw * tw, H div th * th), im_mode = im_mode img, im_pix = (\<lambda>x y. 0)\<rparr>"
      using c r pos by (intro join_parts_unfold [OF False sz0]) simp_all
    then show ?thesis using sp False re c r pos by simp
  qed
qed

section \<open>The validator's rules\<close>

text \<open>
  Claim C3. An ordering with a repeated value is rejected: the validator returns false
  whatever the image size and the tile size are, a zero tile size included, because the
  duplicate test returns before any division.
\<close>

theorem valid_input_duplicate_false:
  "\<not> distinct ordering' \<Longrightarrow> valid_input image_size tile_size ordering' = Inr False"
  by (simp add: valid_input_def card_set_length_iff)

theorem valid_input_duplicate_false_witness:
  "\<not> distinct [1, 1 :: int] \<and> valid_input (4, 4) (0, 0) [1, 1] = Inr False"
  using valid_input_duplicate_false [of "[1, 1]" "(4, 4)" "(0, 0)"] by simp

text \<open>
  Claim C4, as stated: whenever both remainders are zero the validator returns true exactly
  when the tile count is a multiple of the ordering's length. It fails on an ordering with
  a repeated value: a 2 by 1 image in tiles of 1 by 1 has two tiles, the ordering
  \<open>[0, 0]\<close> has length two, and the validator returns false.
\<close>

theorem valid_input_count_rule_counterexample:
  "(2::int) mod 1 = 0 \<and> (1::int) mod 1 = 0 \<and>
   ((2::int) div 1 * (1 div 1)) mod int (length [0, 0 :: int]) = 0 \<and>
   valid_input (2, 1) (1, 1) [0, 0] = Inr False"
  by (simp add: valid_input_def)

text \<open>
  Claim C4, amended: for a non-empty ordering without repeated values and non-zero tile
  dimensions that divide the image dimensions, with the two quotients \<open>W / tw\<close> and
  \<open>H / th\<close>, their product and the ordering's length all of magnitude below \<open>2 ^ 53\<close>
  (so that the program's float arithmetic is exact), the validator returns true exactly
  when the tile count \<open>(W / tw) * (H / th)\<close> is a multiple of the ordering's length.
\<close>

theorem valid_input_count_rule:
  assumes "tw \<noteq> 0" and "th \<noteq> 0" and "W mod tw = 0" and "H mod th = 0"
    and "distinct ordering'" and "ordering' \<noteq> []"
    and "double_exact (W div tw)" and "double_exact (H div th)"
    and "double_exact (W div tw * (H div th))" and "double_exact (int (length ordering'))"
  shows "valid_input (W, H) (tw, th) ordering' =
           Inr ((W div tw * (H div th)) mod int (length ordering') = 0)"
proof -
  have c: "card (set ordering') = length ordering'"
    using assms(5) by (simp add: distinct_card)
  have n: "int (length ordering') \<noteq> 0"
    using assms(6) by simp
  have "py_fmod (of_int W / of_int tw * (of_int H / of_int th)) (of_int (int (length ordering')))
      = Inr (of_int ((W div tw * (H div th)) mod int (length ordering')))"
    using py_fmod_of_int [OF n, of "W div tw * (H div th)"] assms(1-4)
    by (simp add: of_int_div_exact)
  then show ?thesis
    using assms(1-4) c by (simp add: valid_input_def bindE_def py_mod_def py_truediv_def)
qed

theorem valid_input_count_rule_witness:
  "(100::int) \<noteq> 0 \<and> (50::int) \<noteq> 0 \<and> (300::int) mod 100 = 0 \<and> (200::int) mod 50 = 0 \<and>
   distinct [0, 1, 2, 3, 4, 5 :: int] \<and> [0, 1, 2, 3, 4, 5 :: int] \<noteq> [] \<and>
   double_exact (300 div 100) \<and> double_exact (200 div 50) \<and>
   double_exact (300 div 100 * (200 div 50)) \<and>
   double_exact (int (length [0, 1, 2, 3, 4, 5 :: int])) \<and>
   valid_input (300, 200) (100, 50) [0, 1, 2, 3, 4, 5] = Inr True \<and>
   valid_input (300, 200) (100, 50) [0, 1, 2, 3, 4] = Inr False"
  using valid_input_count_rule [of 100 50 300 200 "[0, 1, 2, 3, 4, 5]"]
    valid_input_count_rule [of 100 50 300 200 "[0, 1, 2, 3, 4]"]
  by (simp add: double_exact_def)

text \<open>
  Claim C5. The validator is meant to return a boolean on every input. On the empty
  ordering of an evenly tiled image the float remainder by \<open>len(ordering) = 0\<close> raises, and
  on a zero tile width with a duplicate-free ordering the integer remainder raises.
\<close>

theorem valid_input_raises:
  "valid_input (4, 4) (2, 2) [] = Inl ZeroDivisionError \<and>
   valid_input (4, 4) (0, 2) [0] = Inl ZeroDivisionError"
  by (simp add: valid_input_def bindE_def py_mod_def py_truediv_def py_fmod_def)

section \<open>The orchestrator on invalid input\<close>

lemma rearrange_tiles_invalid:
  assumes "fs image_path = Some img" and "fst tile_size \<noteq> 0" and "snd tile_size \<noteq> 0"
    and "valid_input (im_size img) tile_size ordering' = Inr False"
  shows "rearrange_tiles fs image_path tile_size ordering' out_path =
           (Inl (ValueError ''The tile size or ordering are not valid for the given image''), fs)"
  using assms
  by (simp add: rearrange_tiles_def rearrange_image_def Image_open_def py_truediv_def
      bindE_def invalid_message_def)

text \<open>
  Claim C6. Whenever the validator returns false the orchestrator should raise the
  invalid-input error. With tile size \<open>(0, 2)\<close> and ordering \<open>[1, 1]\<close> on a 4 by 4 image the
  validator returns false, but the orchestrator divides by the tile width before it
  validates and raises a division error instead; the file system is left as it was.
\<close>

theorem rearrange_tiles_zero_tile_division_error:
  "valid_input (im_size (sample_image 4 4)) (0, 2) [1, 1] = Inr False \<and>
   rearrange_tiles [''in.png'' \<mapsto> sample_image 4 4] ''in.png'' (0, 2) [1, 1] ''out.png''
     = (Inl ZeroDivisionError, [''in.png'' \<mapsto> sample_image 4 4])"
  by (simp add: valid_input_def rearrange_tiles_def rearrange_image_def bindE_def
      Image_open_def py_truediv_def sample_image_def)

section \<open>The joiner on an empty tile sequence\<close>

text \<open>
  Claim C10. Called with an empty tile sequence the joiner fails with an index error at
  its first statement, the read of \<open>parts[0]\<close>, before any canvas is allocated; so a call
  that succeeds had a non-empty tile sequence.
\<close>

theorem join_parts_empty_parts:
  "join_parts [] order rows cols image_mode = Inl IndexError"
  by (simp add: join_parts_def bindE_def py_getitem_def)

section \<open>Rearranging an evenly divided image\<close>

text \<open>
  Claim C2. On a valid input whose ordering holds tile indices, the orchestrator's core
  returns an image, and for every position \<open>idx\<close> of the ordering the grid cell \<open>idx\<close> of
  the output (column \<open>idx % cols\<close>, row \<open>idx // cols\<close>) lies inside the output and holds,
  pixel by pixel, the tile number \<open>ordering[idx]\<close> of the row-major tile sequence.
\<close>

theorem rearrange_cell_content:
  assumes "im_size img = (W, H)" and "0 < W" and "0 < H"
    and "valid_input (W, H) (tw, th) ordering' = Inr True"
    and "\<forall>v \<in> set ordering'. 0 \<le> v \<and> v < W div tw * (H div th)"
    and "idx < length ordering'"
    and "0 \<le> dx" and "dx < tw" and "0 \<le> dy" and "dy < th"
  shows "\<exists>parts out.
           split_image_with_tile img (tw, th) = Inr parts \<and>
           int (length parts) = W div tw * (H div th) \<and>
           rearrange_image img (tw, th) ordering' = Inr out \<and>
           in_bounds out (int idx mod (W div tw) * tw + dx) (int idx div (W div tw) * th + dy) \<and>
           im_pix out (int idx mod (W div tw) * tw + dx) (int idx div (W div tw) * th + dy)
             = im_pix (parts ! nat (ordering' ! idx)) dx dy"
proof -
  define c where "c = W div tw"
  define r where "r = H div th"
  define x where "x = int idx mod c * tw + dx"
  define y where "y = int idx div c * th + dy"
  have tw: "0 < tw" and th: "0 < th" using assms(7-10) by simp_all
  have v: "W mod tw = 0" "H mod th = 0" "(c * r) mod int (length ordering') = 0"
    using assms(4) by (simp_all add: valid_input_True_iff c_def r_def)
  have c: "0 < c" "c * tw = W" unfolding c_def by (rule grid_positive [OF assms(2) tw v(1)])+
  have r: "0 < r" "r * th = H" unfolding r_def by (rule grid_positive [OF assms(3) th v(2)])+
  have cr: "0 < c * r" using c(1) r(1) by simp
  obtain parts where sp: "split_image_with_tile img (tw, th) = Inr parts"
    and len': "int (length parts) = W div tw * (H div th)"
    using split_tiles [OF tw th _ _ v(1,2) assms(1)] assms(2,3) by auto
  have len: "int (length parts) = c * r" using len' by (simp add: c_def r_def)
  have ne: "parts \<noteq> []" using len cr by auto
  have sizes: "\<forall>p \<in> set parts. im_size p = (tw, th)"
    using split_tiles_size [OF tw th _ _ v(1,2) assms(1) sp] assms(2,3) by simp
  have rng: "\<forall>v \<in> set ordering'. - int (length parts) \<le> v \<and> v < int (length parts)"
    using assms(5) len' by force
  obtain out where out: "join_parts parts ordering' (of_int r) (of_int c) (im_mode img) = Inr out"
    and osz: "im_size out = (c * tw, r * th)"
    and cells: "\<forall>k x y. k < length ordering' \<and> in_cell c tw th (int k) x y \<and> in_bounds out x y \<longrightarrow>
              (\<exists>part. py_getitem parts (ordering' ! k) = Inr part \<and>
                 im_pix out x y = im_pix part (x - int k mod c * tw) (y - int k div c * th))"
    using join_parts_grid [OF c(1) _ tw th ne sizes rng, of r "im_mode img"] r(1) by auto
  have re: "rearrange_image img (tw, th) ordering' = Inr out"
    using rearrange_image_valid [OF assms(1,4) sp] out by (simp add: c_def r_def)
  have "int (length ordering') dvd c * r" using v(3) by (simp add: dvd_eq_mod_eq_0)
  then have "int (length ordering') \<le> c * r" using cr by (rule zdvd_imp_le)
  then have idx: "int idx < c * r" using assms(6) by simp
  have canvas: "0 \<le> x \<and> x < c * tw \<and> 0 \<le> y \<and> y < r * th"
    unfolding x_def y_def
    by (rule cell_pixel_in_canvas [OF c(1) _ idx assms(7-10)]) simp
  then have ib: "in_bounds out x y" by (simp add: in_bounds_def osz)
  have ic: "in_cell c tw th (int idx) x y"
    unfolding x_def y_def by (rule cell_pixel_in_cell [OF assms(7-10)])
  from cells assms(6) ic ib obtain part
    where part: "py_getitem parts (ordering' ! idx) = Inr part"
      and pix: "im_pix out x y = im_pix part (x - int idx mod c * tw) (y - int idx div c * th)"
    by blast
  have "ordering' ! idx \<in> set ordering'" using assms(6) by simp
  then have "0 \<le> ordering' ! idx \<and> ordering' ! idx < int (length parts)"
    using assms(5) len' by simp
  then have "part = parts ! nat (ordering' ! idx)" using part by (simp add: py_getitem_nonneg)
  then have "im_pix out x y = im_pix (parts ! nat (ordering' ! idx)) dx dy"
    using pix by (simp add: x_def y_def)
  then show ?thesis using sp len' re ib unfolding x_def y_def c_def by blast
qed

theorem rearrange_cell_content_witness:
  "\<exists>parts out.
     split_image_with_tile (sample_image 512 512) (256, 256) = Inr parts \<and>
     int (length parts) = 4 \<and>
     rearrange_image (sample_image 512 512) (256, 256) [3, 2, 1, 0] = Inr out \<and>
     in_bounds out 261 7 \<and>
     im_pix out 261 7 = im_pix (parts ! 2) 5 7"
  using rearrange_cell_content [of "sample_image 512 512" 512 512 256 256 "[3, 2, 1, 0]" 1 5 7]
  by (simp add: sample_image_def valid_input_True_iff)

text \<open>
  Claim C1. For an image of positive size whose width and height are multiples of the
  (positive) tile size, splitting it and joining the tiles in the identity order
  \<open>[0, 1, ..., N - 1]\<close>, with the rows and columns derived by the two divisions, succeeds and
  gives back an image of the same size and mode with the same pixel at every coordinate.
\<close>

theorem split_join_identity:
  assumes "im_size img = (W, H)" and "0 < W" and "0 < H" and "0 < tw" and "0 < th"
    and "W mod tw = 0" and "H mod th = 0"
  shows "\<exists>parts cols rows out.
           split_image_with_tile img (tw, th) = Inr parts \<and>
           py_truediv W tw = Inr cols \<and> py_truediv H th = Inr rows \<and>
           join_parts parts (map int [0..<length parts]) rows cols (im_mode img) = Inr out \<and>
           im_size out = im_size img \<and> im_mode out = im_mode img \<and>
           (\<forall>x y. in_bounds img x y \<longrightarrow> im_pix out x y = im_pix img x y)"
proof -
  define c where "c = W div tw"
  define r where "r = H div th"
  have c: "0 < c" "c * tw = W" unfolding c_def by (rule grid_positive [OF assms(2,4,6)])+
  have r: "0 < r" "r * th = H" unfolding r_def by (rule grid_positive [OF assms(3,5,7)])+
  obtain parts where sp: "split_image_with_tile img (tw, th) = Inr parts"
    and len: "int (length parts) = c * r"
    and tiles: "\<forall>i < length parts.
        parts ! i = crop img (int i mod c * tw, int i div c * th,
                              int i mod c * tw + tw, int i div c * th + th)"
    using split_tiles [OF assms(4,5) _ _ assms(6,7,1)] assms(2,3) unfolding c_def r_def by auto
  have ne: "parts \<noteq> []" using len c(1) r(1) by auto
  have sizes: "\<forall>p \<in> set parts. im_size p = (tw, th)"
    using split_tiles_size [OF assms(4,5) _ _ assms(6,7,1) sp] assms(2,3) by simp
  let ?order = "map int [0..<length parts]"
  have rng: "\<forall>v \<in> set ?order. - int (length parts) \<le> v \<and> v < int (length parts)"
    by auto
  obtain out where out: "join_parts parts ?order (of_int r) (of_int c) (im_mode img) = Inr out"
    and osz: "im_size out = (c * tw, r * th)" and omd: "im_mode out = im_mode img"
    and cells: "\<forall>k x y. k < length ?order \<and> in_cell c tw th (int k) x y \<and> in_bounds out x y \<longrightarrow>
              (\<exists>part. py_getitem parts (?order ! k) = Inr part \<and>
                 im_pix out x y = im_pix part (x - int k mod c * tw) (y - int k div c * th))"
    using join_parts_grid [OF c(1) _ assms(4,5) ne sizes rng, of r "im_mode img"] r(1) by auto
  have cols: "py_truediv W tw = Inr (of_int c)" and rows: "py_truediv H th = Inr (of_int r)"
    using assms(4-7) by (simp_all add: py_truediv_def of_int_div_exact c_def r_def)
  have pix: "\<forall>x y. in_bounds img x y \<longrightarrow> im_pix out x y = im_pix img x y"
  proof (intro allI impI)
    fix x y assume b: "in_bounds img x y"
    then have xy: "0 \<le> x" "x < c * tw" "0 \<le> y" "y < r * th"
      using assms(1) c(2) r(2) by (simp_all add: in_bounds_def)
    define k where "k = nat (y div th * c + x div tw)"
    have pc: "0 \<le> y div th * c + x div tw \<and> y div th * c + x div tw < c * r \<and>
              in_cell c tw th (y div th * c + x div tw) x y"
      by (rule pixel_cell [OF assms(4,5) c(1) xy])
    then have ik: "int k = y div th * c + x div tw" by (simp add: k_def)
    have kl: "k < length parts" using pc len ik by linarith
    then have kl': "k < length ?order" by simp
    have ic: "in_cell c tw th (int k) x y" using pc ik by simp
    have ob: "in_bounds out x y" using b assms(1) osz c(2) r(2) by (simp add: in_bounds_def)
    from cells kl' ic ob obtain part
      where part: "py_getitem parts (?order ! k) = Inr part"
        and px: "im_pix out x y = im_pix part (x - int k mod c * tw) (y - int k div c * th)"
      by blast
    have "?order ! k = int k" using kl by simp
    then have "part = parts ! k" using part kl by (simp add: py_getitem_nonneg)
    then have pk: "part = crop img (int k mod c * tw, int k div c * th,
                              int k mod c * tw + tw, int k div c * th + th)"
      using tiles kl by simp
    have "in_bounds img (int k mod c * tw + (x - int k mod c * tw))
                        (int k div c * th + (y - int k div c * th))"
      using b by simp
    then have "im_pix part (x - int k mod c * tw) (y - int k div c * th) = im_pix img x y"
      unfolding pk by (simp add: crop_pix)
    then show "im_pix out x y = im_pix img x y" using px by simp
  qed
  have "im_size out = im_size img" using osz assms(1) c(2) r(2) by simp
  then show ?thesis using sp cols rows out omd pix by blast
qed

theorem split_join_identity_witness:
  "\<exists>parts cols rows out.
     split_image_with_tile (sample_image 512 512) (256, 256) = Inr parts \<and>
     py_truediv 512 256 = Inr cols \<and> py_truediv 512 256 = Inr rows \<and>
     join_parts parts (map int [0..<length parts]) rows cols ''L'' = Inr out \<and>
     im_size out = (512, 512) \<and> im_mode out = ''L'' \<and>
     (\<forall>x y. in_bounds (sample_image 512 512) x y \<longrightarrow> im_pix out x y = nat (x + 512 * y + 1))"
  using split_join_identity [of "sample_image 512 512" 512 512 256 256]
  by (simp add: sample_image_def)

section \<open>An ordering shorter than the tile count\<close>

text \<open>
  Claim C7. A 300 by 200 image in tiles of 100 by 50 has a grid of 3 columns and 4 rows,
  12 tiles. With the ordering \<open>[0, 1, 2, 3, 4, 5]\<close> the validator returns true; the joiner,
  called with 4 rows and 3 columns, returns a canvas of 300 by 200 whose grid cells 0 to 5
  hold the tiles 0 to 5 and whose grid cells 6 to 11 are blank.
\<close>

theorem short_ordering_scenario:
  assumes "im_size img = (300, 200)"
  shows "valid_input (300, 200) (100, 50) [0, 1, 2, 3, 4, 5] = Inr True \<and>
         (\<exists>parts out.
            split_image_with_tile img (100, 50) = Inr parts \<and> length parts = 12 \<and>
            join_parts parts [0, 1, 2, 3, 4, 5] 4 3 (im_mode img) = Inr out \<and>
            rearrange_image img (100, 50) [0, 1, 2, 3, 4, 5] = Inr out \<and>
            im_size out = (300, 200) \<and>
            (\<forall>k dx dy. k < 6 \<and> 0 \<le> dx \<and> dx < 100 \<and> 0 \<le> dy \<and> dy < 50 \<longrightarrow>
               im_pix out (int k mod 3 * 100 + dx) (int k div 3 * 50 + dy) = im_pix (parts ! k) dx dy) \<and>
            (\<forall>k dx dy. 6 \<le> k \<and> k < 12 \<and> 0 \<le> dx \<and> dx < 100 \<and> 0 \<le> dy \<and> dy < 50 \<longrightarrow>
               im_pix out (int k mod 3 * 100 + dx) (int k div 3 * 50 + dy) = 0))"
proof -
  let ?order = "[0, 1, 2, 3, 4, 5] :: int list"
  have valid: "valid_input (300, 200) (100, 50) ?order = Inr True"
    by (simp add: valid_input_True_iff)
  obtain parts where sp: "split_image_with_tile img (100, 50) = Inr parts"
    and len: "int (length parts) = 12"
    using split_tiles [of 100 50 300 200 img] assms by auto
  have len12: "length parts = 12" using len by simp
  have ne: "parts \<noteq> []" using len by auto
  have sizes: "\<forall>p \<in> set parts. im_size p = (100, 50)"
    using split_tiles_size [of 100 50 300 200 img parts] assms sp by simp
  have rng: "\<forall>v \<in> set ?order. - int (length parts) \<le> v \<and> v < int (length parts)"
    using len by simp
  obtain out where out: "join_parts parts ?order (of_int 4) (of_int 3) (im_mode img) = Inr out"
    and osz: "im_size out = (3 * 100, 4 * 50)"
    and cells: "\<forall>k x y. k < length ?order \<and> in_cell 3 100 50 (int k) x y \<and> in_bounds out x y \<longrightarrow>
              (\<exists>part. py_getitem parts (?order ! k) = Inr part \<and>
                 im_pix out x y = im_pix part (x - int k mod 3 * 100) (y - int k div 3 * 50))"
    and blank: "\<forall>x y. (\<forall>k < length ?order. \<not> in_cell 3 100 50 (int k) x y) \<longrightarrow> im_pix out x y = 0"
    using join_parts_grid [of 3 4 100 50 parts ?order "im_mode img", OF _ _ _ _ ne sizes rng]
    by auto
  have out': "join_parts parts ?order 4 3 (im_mode img) = Inr out" using out by simp
  have re: "rearrange_image img (100, 50) ?order = Inr out"
    using rearrange_image_valid [OF assms valid sp] out' by simp
  have nth: "\<And>k. k < 6 \<Longrightarrow> ?order ! k = int k"
  proof -
    fix k :: nat assume "k < 6"
    then have "k = 0 \<or> k = 1 \<or> k = 2 \<or> k = 3 \<or> k = 4 \<or> k = 5" by linarith
    then show "?order ! k = int k" by auto
  qed
  have filled: "\<forall>k dx dy. k < 6 \<and> 0 \<le> dx \<and> dx < 100 \<and> 0 \<le> dy \<and> dy < 50 \<longrightarrow>
               im_pix out (int k mod 3 * 100 + dx) (int k div 3 * 50 + dy) = im_pix (parts ! k) dx dy"
  proof (intro allI impI)
    fix k :: nat and dx dy :: int
    assume h: "k < 6 \<and> 0 \<le> dx \<and> dx < 100 \<and> 0 \<le> dy \<and> dy < 50"
    let ?x = "int k mod 3 * 100 + dx" and ?y = "int k div 3 * 50 + dy"
    have ic: "in_cell 3 100 50 (int k) ?x ?y"
      using h by (intro cell_pixel_in_cell) simp_all
    have "0 \<le> ?x \<and> ?x < 3 * 100 \<and> 0 \<le> ?y \<and> ?y < 4 * 50"
      using h by (intro cell_pixel_in_canvas) simp_all
    then have ib: "in_bounds out ?x ?y" by (simp add: in_bounds_def osz)
    have kl: "k < length ?order" using h by simp
    from cells kl ic ib obtain part where part: "py_getitem parts (?order ! k) = Inr part"
      and px: "im_pix out ?x ?y = im_pix part (?x - int k mod 3 * 100) (?y - int k div 3 * 50)"
      by blast
    have "py_getitem parts (int k) = Inr (parts ! nat (int k))"
      using h len by (intro py_getitem_nonneg) simp_all
    then have "part = parts ! k" using part nth [of k] h by simp
    then show "im_pix out ?x ?y = im_pix (parts ! k) dx dy" using px by simp
  qed
  have empty: "\<forall>k dx dy. 6 \<le> k \<and> k < 12 \<and> 0 \<le> dx \<and> dx < 100 \<and> 0 \<le> dy \<and> dy < 50 \<longrightarrow>
               im_pix out (int k mod 3 * 100 + dx) (int k div 3 * 50 + dy) = 0"
  proof (intro allI impI)
    fix k :: nat and dx dy :: int
    assume h: "6 \<le> k \<and> k < 12 \<and> 0 \<le> dx \<and> dx < 100 \<and> 0 \<le> dy \<and> dy < 50"
    let ?x = "int k mod 3 * 100 + dx" and ?y = "int k div 3 * 50 + dy"
    have ic: "in_cell 3 100 50 (int k) ?x ?y"
      using h by (intro cell_pixel_in_cell) simp_all
    have "\<forall>j < length ?order. \<not> in_cell 3 100 50 (int j) ?x ?y"
    proof (intro allI impI notI)
      fix j assume j: "j < length ?order" and "in_cell 3 100 50 (int j) ?x ?y"
      then have "int j = int k" using ic in_cell_unique [of 100 50 3 "int j" ?x ?y "int k"] by simp
      then show False using j h by simp
    qed
    then show "im_pix out ?x ?y = 0" using blank by blast
  qed
  show ?thesis using valid sp len12 out' re osz filled empty by simp
qed

theorem short_ordering_scenario_witness:
  "valid_input (300, 200) (100, 50) [0, 1, 2, 3, 4, 5] = Inr True \<and>
   (\<exists>parts out.
      split_image_with_tile (sample_image 300 200) (100, 50) = Inr parts \<and> length parts = 12 \<and>
      join_parts parts [0, 1, 2, 3, 4, 5] 4 3 ''L'' = Inr out \<and>
      rearrange_image (sample_image 300 200) (100, 50) [0, 1, 2, 3, 4, 5] = Inr out \<and>
      im_size out = (300, 200) \<and>
      (\<forall>k dx dy. k < 6 \<and> 0 \<le> dx \<and> dx < 100 \<and> 0 \<le> dy \<and> dy < 50 \<longrightarrow>
         im_pix out (int k mod 3 * 100 + dx) (int k div 3 * 50 + dy) = im_pix (parts ! k) dx dy) \<and>
      (\<forall>k dx dy. 6 \<le> k \<and> k < 12 \<and> 0 \<le> dx \<and> dx < 100 \<and> 0 \<le> dy \<and> dy < 50 \<longrightarrow>
         im_pix out (int k mod 3 * 100 + dx) (int k div 3 * 50 + dy) = 0))"
  using short_ordering_scenario [of "sample_image 300 200"]
  by (simp add: sample_image_def)

section \<open>Tile indices out of range\<close>

text \<open>
  Claim C8, as stated: an ordering that passes validation and holds a value outside
  \<open>[0, N)\<close>, with \<open>N\<close> the tile count, makes the joiner's tile lookup fail. It does not for a
  negative value down to \<open>- N\<close>: a 2 by 1 image in tiles of 1 by 1 has two tiles, the
  ordering \<open>[-1, 0]\<close> passes validation, and \<open>parts[-1]\<close> is the last tile, which the joiner
  pastes into cell 0.
\<close>

theorem negative_index_counterexample:
  "valid_input (2, 1) (1, 1) [- 1, 0] = Inr True \<and>
   tile_count (sample_image 2 1) (1, 1) = Inr 2 \<and>
   (- 1 :: int) \<notin> {0..<2} \<and>
   pixel_of (rearrange_image (sample_image 2 1) (1, 1) [- 1, 0]) 0 0 = Inr 2 \<and>
   pixel_of (rearrange_image (sample_image 2 1) (1, 1) [- 1, 0]) 1 0 = Inr 1"
proof -
  have a: "valid_input (2, 1) (1, 1) [- 1, 0] = Inr True"
    by (simp add: valid_input_True_iff)
  have b: "tile_count (sample_image 2 1) (1, 1) = Inr 2"
    by code_simp
  have c: "pixel_of (rearrange_image (sample_image 2 1) (1, 1) [- 1, 0]) 0 0 = Inr 2"
    by code_simp
  have d: "pixel_of (rearrange_image (sample_image 2 1) (1, 1) [- 1, 0]) 1 0 = Inr 1"
    by code_simp
  show ?thesis using a b c d by simp
qed

text \<open>
  Claim C8, amended: when an ordering passes validation and holds a value \<open>v\<close> with
  \<open>v \<ge> N\<close> or \<open>v < - N\<close>, where \<open>N\<close> is the number of tiles, the run fails with an index
  error raised by the joiner (the values from \<open>- N\<close> to \<open>- 1\<close> are resolved by negative
  indexing and do not fail).
\<close>

theorem index_out_of_range_error:
  assumes "im_size img = (W, H)" and "0 \<le> W" and "0 \<le> H"
    and "valid_input (W, H) (tw, th) ordering' = Inr True"
    and "tile_count img (tw, th) = Inr n"
    and "\<exists>v \<in> set ordering'. v < - int n \<or> int n \<le> v"
  shows "rearrange_image img (tw, th) ordering' = Inl IndexError"
proof -
  obtain parts where sp: "split_image_with_tile img (tw, th) = Inr parts"
    and res: "if parts = [] then rearrange_image img (tw, th) ordering' = Inl IndexError
            else 0 < W div tw \<and> 0 < tw \<and> 0 < th \<and>
                 rearrange_image img (tw, th) ordering' =
                   join_loop parts (of_int (W div tw)) tw th 0 ordering'
                     \<lparr>im_size = (W, H), im_mode = im_mode img, im_pix = (\<lambda>x y. 0)\<rparr>"
    using rearrange_image_result [OF assms(1-4)] by blast
  have n: "n = length parts" using assms(5) sp by (simp add: tile_count_def bindE_Inr)
  show ?thesis
  proof (cases "parts = []")
    case True
    then show ?thesis using res by simp
  next
    case False
    then have c: "W div tw \<noteq> 0" using res by auto
    have bad: "\<exists>v \<in> set ordering'. v < - int (length parts) \<or> int (length parts) \<le> v"
      using assms(6) n by simp
    show ?thesis using False res join_loop_bad_index [OF c bad] by simp
  qed
qed

theorem index_out_of_range_error_witness:
  "tile_count (sample_image 2 1) (1, 1) = Inr 2 \<and>
   valid_input (2, 1) (1, 1) [0, 2] = Inr True \<and>
   rearrange_image (sample_image 2 1) (1, 1) [0, 2] = Inl IndexError"
proof -
  have n: "tile_count (sample_image 2 1) (1, 1) = Inr 2"
    by code_simp
  have v: "valid_input (2, 1) (1, 1) [0, 2] = Inr True"
    by (simp add: valid_input_True_iff)
  have "rearrange_image (sample_image 2 1) (1, 1) [0, 2] = Inl IndexError"
    using index_out_of_range_error [of "sample_image 2 1" 2 1 1 1 "[0, 2]" 2] n v
    by (simp add: sample_image_def)
  then show ?thesis using n v by simp
qed

section \<open>The size of the output\<close>

text \<open>
  Claim C9. On a valid input the canvas the joiner allocates, \<open>cols * tile_width\<close> by
  \<open>rows * tile_height\<close> with the two quotients for \<open>cols\<close> and \<open>rows\<close>, has the width and
  height of the input image, and every image the run returns has the input's width,
  height and mode; a run that returns no image ended in the joiner's index error.
\<close>

theorem rearrange_output_dimensions:
  assumes "im_size img = (W, H)" and "0 \<le> W" and "0 \<le> H"
    and "valid_input (W, H) (tw, th) ordering' = Inr True"
  shows "(\<exists>cols rows. py_truediv W tw = Inr cols \<and> py_truediv H th = Inr rows \<and>
            py_int (cols * of_int tw) = W \<and> py_int (rows * of_int th) = H) \<and>
         (case rearrange_image img (tw, th) ordering' of
            Inr out \<Rightarrow> im_size out = (W, H) \<and> im_mode out = im_mode img
          | Inl e \<Rightarrow> e = IndexError)"
proof -
  have v: "tw \<noteq> 0" "th \<noteq> 0" "W mod tw = 0" "H mod th = 0"
    using assms(4) by (simp_all add: valid_input_True_iff)
  have "py_int (of_int (W div tw) * of_int tw) = W div tw * tw"
       "py_int (of_int (H div th) * of_int th) = H div th * th"
    using py_int_of_int [of "W div tw * tw"] py_int_of_int [of "H div th * th"] by simp_all
  moreover have "W div tw * tw = W" "H div th * th = H" using v(3,4) by auto
  ultimately have canvas: "\<exists>cols rows. py_truediv W tw = Inr cols \<and> py_truediv H th = Inr rows \<and>
            py_int (cols * of_int tw) = W \<and> py_int (rows * of_int th) = H"
    using v by (simp add: py_truediv_def of_int_div_exact)
  obtain parts where sp: "split_image_with_tile img (tw, th) = Inr parts"
    and res: "if parts = [] then rearrange_image img (tw, th) ordering' = Inl IndexError
            else 0 < W div tw \<and> 0 < tw \<and> 0 < th \<and>
                 rearrange_image img (tw, th) ordering' =
                   join_loop parts (of_int (W div tw)) tw th 0 ordering'
                     \<lparr>im_size = (W, H), im_mode = im_mode img, im_pix = (\<lambda>x y. 0)\<rparr>"
    using rearrange_image_result [OF assms(1-4)] by blast
  have "case rearrange_image img (tw, th) ordering' of
            Inr out \<Rightarrow> im_size out = (W, H) \<and> im_mode out = im_mode img
          | Inl e \<Rightarrow> e = IndexError"
  proof (cases "parts = []")
    case True
    then show ?thesis using res by simp
  next
    case False
    let ?canvas = "\<lparr>im_size = (W, H), im_mode = im_mode img, im_pix = (\<lambda>x y. 0)\<rparr>"
    have c: "W div tw \<noteq> 0" using False res by auto
    have re: "rearrange_image img (tw, th) ordering' =
                join_loop parts (of_int (W div tw)) tw th 0 ordering' ?canvas"
      using False res by simp
    from join_loop_result [OF c, of parts tw th 0 ordering' ?canvas]
    show ?thesis
    proof
      assume "\<exists>out. join_loop parts (of_int (W div tw)) tw th 0 ordering' ?canvas = Inr out"
      then obtain out where out: "join_loop parts (of_int (W div tw)) tw th 0 ordering' ?canvas = Inr out"
        by blast
      then show ?thesis using re join_loop_size [OF out] by simp
    next
      assume "join_loop parts (of_int (W div tw)) tw th 0 ordering' ?canvas = Inl IndexError"
      then show ?thesis using re by simp
    qed
  qed
  then show ?thesis using canvas by simp
qed

theorem rearrange_output_dimensions_witness:
  "\<exists>out. rearrange_image (sample_image 512 512) (256, 256) [3, 2, 1, 0] = Inr out \<and>
         im_size out = (512, 512) \<and> im_mode out = ''L''"
proof -
  have "\<not> isl (rearrange_image (sample_image 512 512) (256, 256) [3, 2, 1, 0])"
    by code_simp
  then obtain out where out: "rearrange_image (sample_image 512 512) (256, 256) [3, 2, 1, 0] = Inr out"
    by (cases "rearrange_image (sample_image 512 512) (256, 256) [3, 2, 1, 0]") simp_all
  have "im_size (sample_image 512 512) = (512, 512)"
    by (simp add: sample_image_def)
  moreover have "valid_input (512, 512) (256, 256) [3, 2, 1, 0] = Inr True"
    by (simp add: valid_input_True_iff)
  ultimately have "case rearrange_image (sample_image 512 512) (256, 256) [3, 2, 1, 0] of
            Inr out \<Rightarrow> im_size out = (512, 512) \<and> im_mode out = im_mode (sample_image 512 512)
          | Inl e \<Rightarrow> e = IndexError"
    using rearrange_output_dimensions [of "sample_image 512 512" 512 512 256 256 "[3, 2, 1, 0]"]
    by simp
  then show ?thesis using out by (simp add: sample_image_def)
qed

end
